theory Spec2Isabelle
  imports Complex_Main "HOL-Library.AList"
begin

section \<open>The Naive Bayes classifier of \<open>src/naive_bayes.py\<close>\<close>

text \<open>
  Numbers: a float tensor entry is modelled as a \<open>real\<close>, so every statement below is
  about the arithmetic of the program carried out exactly; rounding, overflow to
  infinity and NaN are outside the model. A one-dimensional tensor is a list of reals,
  the feature matrix is the list of its rows, the label tensor is a list of integers
  (\<open>int(label)\<close> is the identity on it).

  A Python \<open>dict\<close> is an association list in insertion order with distinct keys:
  \<open>map_of\<close> looks a key up, \<open>AList.update\<close> overwrites the value of a present key
  in place and appends an absent key at the end, as assignment to \<open>d[k]\<close> does.

  Every \<open>raise\<close>, and every failure of a Python or torch primitive the code
  can reach, is a value of \<open>py_error\<close>.
\<close>

datatype py_error =
    ValueError          \<comment> \<open>"Model must be trained before estimating class posteriors."\<close>
  | NotTrainedException \<comment> \<open>\<open>Exception("Model not trained. Please call the train method first.")\<close>\<close>
  | KeyError
  | IndexError
  | ZeroDivisionError
  | TypeError           \<comment> \<open>\<open>None * delta\<close>\<close>
  | RuntimeError        \<comment> \<open>torch: shapes that do not broadcast, \<open>argmax\<close> of an empty tensor\<close>

type_synonym tensor = "real list"
type_synonym 'v dict = "(int \<times> 'v) list"

record NaiveBayes =
  class_priors :: "real dict option"
  conditional_probabilities :: "tensor dict option"
  vocab_size :: "nat option"

text \<open>\<open>__init__\<close>: the three fields are \<open>None\<close>.\<close>

definition init :: NaiveBayes where
  "init = \<lparr>class_priors = None, conditional_probabilities = None, vocab_size = None\<rparr>"

subsection \<open>Tensor primitives\<close>

text \<open>\<open>features[indx]\<close>: a row, or IndexError past the last row.\<close>

definition get_row :: "tensor list \<Rightarrow> nat \<Rightarrow> py_error + tensor" where
  "get_row features indx = (if indx < length features then Inr (features ! indx) else Inl IndexError)"

text \<open>
  \<open>a += b\<close> on one-dimensional tensors. The two operands of the program are rows of one
  matrix, which have the same width; any other pair of widths is reported as an error
  instead of being truncated.
\<close>

definition iadd :: "tensor \<Rightarrow> tensor \<Rightarrow> py_error + tensor" where
  "iadd a b = (if length a = length b then Inr (map2 (+) a b) else Inl RuntimeError)"

text \<open>
  \<open>a * b\<close> on one-dimensional tensors, with torch's broadcasting: equal widths multiply
  componentwise, a width of one is stretched, anything else fails.
\<close>

definition mul :: "tensor \<Rightarrow> tensor \<Rightarrow> py_error + tensor" where
  "mul a b =
     (if length a = length b then Inr (map2 (*) a b)
      else if length a = 1 then Inr (map (\<lambda>y. hd a * y) b)
      else if length b = 1 then Inr (map (\<lambda>x. x * hd b) a)
      else Inl RuntimeError)"

text \<open>
  \<open>torch.argmax\<close> of a one-dimensional tensor, as torch documents it: the index of the
  first maximal entry; an empty tensor is an error.
\<close>

definition argmax :: "tensor \<Rightarrow> py_error + nat" where
  "argmax xs =
     (if xs = [] then Inl RuntimeError
      else Inr (length (takeWhile (\<lambda>x. x \<noteq> Max (set xs)) xs)))"

text \<open>
  \<open>torch.softmax(xs, axis=0)\<close>, as torch documents it: each entry is \<open>exp x\<close> over the sum
  of all \<open>exp\<close>.
\<close>

definition softmax :: "tensor \<Rightarrow> tensor" where
  "softmax xs = map (\<lambda>x. exp x / sum_list (map exp xs)) xs"

text \<open>Truth value of \<open>not d\<close> for a field that is \<open>None\<close> or a dict.\<close>

definition falsy :: "'v dict option \<Rightarrow> bool" where
  "falsy d = (case d of None \<Rightarrow> True | Some kvs \<Rightarrow> kvs = [])"

subsection \<open>\<open>estimate_class_priors\<close>\<close>

text \<open>The first loop: one counter per label, created at 1 and incremented afterwards.\<close>

fun count_labels :: "nat dict \<Rightarrow> int list \<Rightarrow> nat dict" where
  "count_labels counts [] = counts"
| "count_labels counts (label # labels) =
     count_labels
       (case map_of counts label of
          Some n \<Rightarrow> AList.update label (n + 1) counts
        | None \<Rightarrow> AList.update label 1 counts)
       labels"

text \<open>
  The second loop: every counter, in key order of the dict, is overwritten by
  \<open>counter / len(labels)\<close>; Python's \<open>/\<close> raises on a zero divisor.
\<close>

fun divide_counts :: "nat \<Rightarrow> nat dict \<Rightarrow> py_error + real dict" where
  "divide_counts n [] = Inr []"
| "divide_counts n ((key, c) # kvs) =
     (if n = 0 then Inl ZeroDivisionError
      else case divide_counts n kvs of
             Inl e \<Rightarrow> Inl e
           | Inr rest \<Rightarrow> Inr ((key, real c / real n) # rest))"

definition estimate_class_priors :: "int list \<Rightarrow> py_error + real dict" where
  "estimate_class_priors labels = divide_counts (length labels) (count_labels [] labels)"

subsection \<open>\<open>estimate_conditional_probabilities\<close>\<close>

text \<open>The first loop over \<open>enumerate(labels)\<close>: the word total of every class.\<close>

fun total_words_loop :: "tensor list \<Rightarrow> real dict \<Rightarrow> (nat \<times> int) list \<Rightarrow> py_error + real dict" where
  "total_words_loop features total_words_for_class [] = Inr total_words_for_class"
| "total_words_loop features total_words_for_class ((indx, label) # rest) =
     (case map_of total_words_for_class label of
        None \<Rightarrow>
          (case get_row features indx of
             Inl e \<Rightarrow> Inl e
           | Inr row \<Rightarrow>
               total_words_loop features
                 (AList.update label (sum_list row) total_words_for_class) rest)
      | Some t \<Rightarrow>
          (case get_row features indx of
             Inl e \<Rightarrow> Inl e
           | Inr row \<Rightarrow>
               total_words_loop features
                 (AList.update label (t + sum_list row) total_words_for_class) rest))"

text \<open>
  The denominator \<open>self.vocab_size*delta + total_words_for_class[label]\<close>, evaluated
  left to right: \<open>None * delta\<close> is a TypeError, a missing key a KeyError.
\<close>

definition denominator :: "NaiveBayes \<Rightarrow> real \<Rightarrow> real dict \<Rightarrow> int \<Rightarrow> py_error + real" where
  "denominator self delta total_words_for_class label =
     (case vocab_size self of
        None \<Rightarrow> Inl TypeError
      | Some V \<Rightarrow>
          (case map_of total_words_for_class label of
             None \<Rightarrow> Inl KeyError
           | Some t \<Rightarrow> Inr (real V * delta + t)))"

text \<open>The second loop over \<open>enumerate(labels)\<close>: the accumulated vector of every class.\<close>

fun class_word_counts_loop ::
  "NaiveBayes \<Rightarrow> tensor list \<Rightarrow> real \<Rightarrow> real dict \<Rightarrow> tensor dict \<Rightarrow> (nat \<times> int) list
     \<Rightarrow> py_error + tensor dict" where
  "class_word_counts_loop self features delta tw class_word_counts [] = Inr class_word_counts"
| "class_word_counts_loop self features delta tw class_word_counts ((indx, label) # rest) =
     (case map_of class_word_counts label of
        None \<Rightarrow>
          (case get_row features indx of
             Inl e \<Rightarrow> Inl e
           | Inr row \<Rightarrow>
               (case denominator self delta tw label of
                  Inl e \<Rightarrow> Inl e
                | Inr d \<Rightarrow>
                    class_word_counts_loop self features delta tw
                      (AList.update label (map (\<lambda>x. (x + delta) / d) row) class_word_counts)
                      rest))
      | Some acc \<Rightarrow>
          (case get_row features indx of
             Inl e \<Rightarrow> Inl e
           | Inr row \<Rightarrow>
               (case denominator self delta tw label of
                  Inl e \<Rightarrow> Inl e
                | Inr d \<Rightarrow>
                    (case iadd acc (map (\<lambda>x. x / d) row) of
                       Inl e \<Rightarrow> Inl e
                     | Inr acc' \<Rightarrow>
                         class_word_counts_loop self features delta tw
                           (AList.update label acc' class_word_counts) rest))))"

definition estimate_conditional_probabilities ::
  "NaiveBayes \<Rightarrow> tensor list \<Rightarrow> int list \<Rightarrow> real \<Rightarrow> py_error + tensor dict" where
  "estimate_conditional_probabilities self features labels delta =
     (case total_words_loop features [] (enumerate 0 labels) of
        Inl e \<Rightarrow> Inl e
      | Inr tw \<Rightarrow> class_word_counts_loop self features delta tw [] (enumerate 0 labels))"

subsection \<open>\<open>fit\<close>\<close>

text \<open>
  \<open>fit\<close> assigns the three fields in turn; the result is the exception, if one was
  raised, and the object as the assignments made before it left it.
\<close>

definition fit :: "NaiveBayes \<Rightarrow> tensor list \<Rightarrow> int list \<Rightarrow> real \<Rightarrow> py_error option \<times> NaiveBayes" where
  "fit self features labels delta =
     (case estimate_class_priors labels of
        Inl e \<Rightarrow> (Some e, self)
      | Inr cp \<Rightarrow>
          (let self1 = self\<lparr>class_priors := Some cp\<rparr>;
               self2 = self1\<lparr>vocab_size := Some (length labels)\<rparr>
           in case estimate_conditional_probabilities self2 features labels delta of
                Inl e \<Rightarrow> (Some e, self2)
              | Inr cd \<Rightarrow> (None, self2\<lparr>conditional_probabilities := Some cd\<rparr>)))"

subsection \<open>Inference\<close>

text \<open>
  The loop of \<open>estimate_class_posteriors\<close> over
  \<open>enumerate(sorted(self.class_priors.items()))\<close>, writing entry \<open>i\<close> of the result.
\<close>

fun log_posteriors_loop ::
  "tensor dict \<Rightarrow> tensor \<Rightarrow> tensor \<Rightarrow> (nat \<times> int \<times> real) list \<Rightarrow> py_error + tensor" where
  "log_posteriors_loop cond feature log_posteriors [] = Inr log_posteriors"
| "log_posteriors_loop cond feature log_posteriors ((i, class_label, class_prior) # rest) =
     (case map_of cond class_label of
        None \<Rightarrow> Inl KeyError
      | Some c \<Rightarrow>
          (case mul (map ln c) feature of
             Inl e \<Rightarrow> Inl e
           | Inr weighted \<Rightarrow>
               log_posteriors_loop cond feature
                 (log_posteriors[i := ln class_prior + sum_list weighted]) rest))"

definition estimate_class_posteriors :: "NaiveBayes \<Rightarrow> tensor \<Rightarrow> py_error + tensor" where
  "estimate_class_posteriors self feature =
     (case conditional_probabilities self of
        None \<Rightarrow> Inl ValueError
      | Some cond \<Rightarrow>
          (case class_priors self of
             None \<Rightarrow> Inl ValueError
           | Some priors \<Rightarrow>
               log_posteriors_loop cond feature (replicate (length priors) 0)
                 (enumerate 0 (sort_key fst priors))))"

definition predict :: "NaiveBayes \<Rightarrow> tensor \<Rightarrow> py_error + nat" where
  "predict self feature =
     (if falsy (class_priors self) \<or> falsy (conditional_probabilities self)
      then Inl NotTrainedException
      else case estimate_class_posteriors self feature of
             Inl e \<Rightarrow> Inl e
           | Inr log_posteriors \<Rightarrow> argmax log_posteriors)"

definition predict_proba :: "NaiveBayes \<Rightarrow> tensor \<Rightarrow> py_error + tensor" where
  "predict_proba self feature =
     (if falsy (class_priors self) \<or> falsy (conditional_probabilities self)
      then Inl NotTrainedException
      else case estimate_class_posteriors self feature of
             Inl e \<Rightarrow> Inl e
           | Inr log_posteriors \<Rightarrow> Inr (softmax log_posteriors))"

subsection \<open>The conditional probabilities as the specification words them\<close>

text \<open>
  The feature rows of the training examples with label \<open>c\<close>, in the order in which they
  are met.
\<close>

definition rows_of_class :: "tensor list \<Rightarrow> int list \<Rightarrow> int \<Rightarrow> tensor list" where
  "rows_of_class features labels c =
     map fst (filter (\<lambda>(row, label). label = c) (zip features labels))"

text \<open>\<open>total_words(c)\<close>: the sum of all components of all feature rows of class \<open>c\<close>.\<close>

definition total_words :: "tensor list \<Rightarrow> int list \<Rightarrow> int \<Rightarrow> real" where
  "total_words features labels c = sum_list (map sum_list (rows_of_class features labels c))"

text \<open>
  What each example of a class contributes, for the denominator \<open>d\<close>: the first one
  \<open>(feature + delta) / d\<close>, every later one \<open>feature / d\<close>.
\<close>

definition contributions :: "real \<Rightarrow> real \<Rightarrow> tensor list \<Rightarrow> tensor list" where
  "contributions delta d rows =
     (case rows of
        [] \<Rightarrow> []
      | first # others \<Rightarrow> map (\<lambda>x. (x + delta) / d) first # map (map (\<lambda>x. x / d)) others)"

text \<open>The sum of the contributions, accumulated from the first one on; no contribution, no entry.\<close>

definition accumulated_sum :: "tensor list \<Rightarrow> tensor option" where
  "accumulated_sum cs = (case cs of [] \<Rightarrow> None | c # cs' \<Rightarrow> Some (foldl (map2 (+)) c cs'))"

text \<open>The vector of class \<open>c\<close> for the vocabulary-size field \<open>V\<close>.\<close>

definition spec_conditional :: "nat \<Rightarrow> tensor list \<Rightarrow> int list \<Rightarrow> real \<Rightarrow> int \<Rightarrow> tensor option" where
  "spec_conditional V features labels delta c =
     accumulated_sum
       (contributions delta (real V * delta + total_words features labels c)
          (rows_of_class features labels c))"

text \<open>
  The entry of one class after the second loop has met the given rows, from the entry
  \<open>start\<close> the class had before; used to state the loop invariant.
\<close>

definition outcome :: "real \<Rightarrow> real \<Rightarrow> tensor option \<Rightarrow> tensor list \<Rightarrow> tensor option" where
  "outcome delta d start rows =
     (case start of
        Some acc \<Rightarrow> Some (foldl (map2 (+)) acc (map (map (\<lambda>x. x / d)) rows))
      | None \<Rightarrow> accumulated_sum (contributions delta d rows))"

subsection \<open>The log-posteriors as the specification words them\<close>

text \<open>\<open>log(prior) + \<Sum>j log(conditional[j]) * feature[j]\<close> for one class.\<close>

definition spec_log_posterior :: "real \<Rightarrow> tensor \<Rightarrow> tensor \<Rightarrow> real" where
  "spec_log_posterior prior cond_c feature =
     ln prior + (\<Sum>j<length feature. ln (cond_c ! j) * feature ! j)"

text \<open>The class labels of the priors in ascending order: entry \<open>i\<close> is the label of rank \<open>i\<close>.\<close>

definition ascending_labels :: "real dict \<Rightarrow> int list" where
  "ascending_labels priors = sorted_list_of_set (fst ` set priors)"

subsection \<open>Trained classifiers\<close>

text \<open>
  A classifier is trained for features of width \<open>W\<close> when both mappings are set and not
  empty, the priors are positive, and every class with a prior has a conditional vector
  of width \<open>W\<close> with positive components. These are the states in which the logarithms
  the inference takes are logarithms of positive numbers, where exact arithmetic and the
  program agree; \<open>fit\<close> produces them from non-negative counts and a positive \<open>delta\<close>.
\<close>

definition trained :: "NaiveBayes \<Rightarrow> nat \<Rightarrow> bool" where
  "trained self W =
     (case class_priors self of
        None \<Rightarrow> False
      | Some priors \<Rightarrow>
          (case conditional_probabilities self of
             None \<Rightarrow> False
           | Some cond \<Rightarrow>
               priors \<noteq> [] \<and> cond \<noteq> [] \<and> distinct (map fst priors) \<and>
               list_all (\<lambda>(c, p). 0 < p \<and>
                   (case map_of cond c of
                      None \<Rightarrow> False
                    | Some v \<Rightarrow> length v = W \<and> list_all (\<lambda>x. 0 < x) v)) priors))"

section \<open>Class priors\<close>

lemma map_of_count_labels:
  "map_of (count_labels counts labels) c =
     (case map_of counts c of
        Some n \<Rightarrow> Some (n + count_list labels c)
      | None \<Rightarrow> if c \<in> set labels then Some (count_list labels c) else None)"
  by (induction labels arbitrary: counts) (auto simp: update_conv' split: option.splits)

lemma distinct_count_labels:
  "distinct (map fst counts) \<Longrightarrow> distinct (map fst (count_labels counts labels))"
  by (induction labels arbitrary: counts) (auto simp: distinct_update split: option.splits)

lemma keys_count_labels:
  "fst ` set (count_labels counts labels) = fst ` set counts \<union> set labels"
  by (induction labels arbitrary: counts) (auto simp: dom_update split: option.splits)

lemma sum_update_present:
  "map_of kvs k = Some n \<Longrightarrow>
     sum_list (map snd (AList.update k v kvs)) + n = sum_list (map snd kvs) + (v::nat)"
  by (induction kvs) auto

lemma sum_update_absent:
  "map_of kvs k = None \<Longrightarrow>
     sum_list (map snd (AList.update k v kvs)) = sum_list (map snd kvs) + (v::nat)"
  by (induction kvs) auto

text \<open>The counters add up to the number of labels counted.\<close>

lemma sum_count_labels:
  "sum_list (map snd (count_labels counts labels)) = sum_list (map snd counts) + length labels"
proof (induction labels arbitrary: counts)
  case Nil
  then show ?case by simp
next
  case (Cons l ls)
  show ?case
  proof (cases "map_of counts l")
    case None
    then show ?thesis using Cons.IH sum_update_absent [OF None, of 1] by simp
  next
    case (Some n)
    then show ?thesis using Cons.IH sum_update_present [OF Some, of "n + 1"] by simp
  qed
qed

lemma divide_counts_pos:
  "n \<noteq> 0 \<Longrightarrow> divide_counts n kvs = Inr (map (\<lambda>(key, c). (key, real c / real n)) kvs)"
  by (induction kvs) auto

lemma sum_divided:
  "sum_list (map snd (map (\<lambda>(key, c). (key, real c / real n)) kvs)) =
     real (sum_list (map snd kvs)) / real n"
  by (induction kvs) (auto simp: add_divide_distrib)

lemma map_of_divided:
  "map_of (map (\<lambda>(key, c). (key, real c / real n)) kvs) k =
     map_option (\<lambda>c. real c / real n) (map_of kvs k)"
  by (induction kvs) auto

lemma keys_divided:
  "map fst (map (\<lambda>(key, c). (key, real c / real n)) kvs) = map fst kvs"
  by (induction kvs) auto

lemma estimate_class_priors_run:
  assumes "labels \<noteq> []"
  shows "\<exists>priors. estimate_class_priors labels = Inr priors
           \<and> distinct (map fst priors)
           \<and> fst ` set priors = set labels
           \<and> (\<forall>c\<in>set labels.
                 map_of priors c = Some (real (count_list labels c) / real (length labels)))
           \<and> sum_list (map snd priors) = 1"
proof -
  let ?n = "length labels"
  let ?counts = "count_labels [] labels"
  let ?priors = "map (\<lambda>(key, c). (key, real c / real ?n)) ?counts"
  have n: "?n \<noteq> 0" using assms by simp
  have run: "estimate_class_priors labels = Inr ?priors"
    unfolding estimate_class_priors_def by (rule divide_counts_pos [OF n])
  have keys: "map fst ?priors = map fst ?counts" by (rule keys_divided)
  have d: "distinct (map fst ?priors)"
    unfolding keys by (rule distinct_count_labels) simp
  have "fst ` set ?priors = set (map fst ?priors)" by (simp only: set_map)
  also have "\<dots> = fst ` set ?counts" by (simp only: keys set_map)
  also have "\<dots> = set labels" using keys_count_labels [of "[]" labels] by simp
  finally have dom: "fst ` set ?priors = set labels" .
  have val: "\<forall>c\<in>set labels. map_of ?priors c = Some (real (count_list labels c) / real ?n)"
    by (simp add: map_of_divided map_of_count_labels)
  have "sum_list (map snd ?priors) = real (sum_list (map snd ?counts)) / real ?n"
    by (rule sum_divided)
  also have "\<dots> = 1" using n by (simp add: sum_count_labels)
  finally have s: "sum_list (map snd ?priors) = 1" .
  from run d dom val s show ?thesis by blast
qed

text \<open>
  Claim C6. For a non-empty label vector \<open>estimate_class_priors\<close> returns a mapping whose
  keys are exactly the labels that occur, each mapped to the number of its occurrences
  divided by the number of labels, and the values of the mapping add up to 1.
\<close>

theorem estimate_class_priors_frequencies:
  assumes "labels \<noteq> []"
  shows "\<exists>priors. estimate_class_priors labels = Inr priors
           \<and> distinct (map fst priors)
           \<and> fst ` set priors = set labels
           \<and> (\<forall>c\<in>set labels.
                 map_of priors c = Some (real (count_list labels c) / real (length labels)))
           \<and> sum_list (map snd priors) = 1"
  using assms by (rule estimate_class_priors_run)

theorem estimate_class_priors_frequencies_witness:
  "[0, 0, 1, 1::int] \<noteq> [] \<and>
   estimate_class_priors [0, 0, 1, 1] = Inr [(0, 1 / 2), (1, 1 / 2)] \<and>
   (\<exists>priors. estimate_class_priors [0, 0, 1, 1] = Inr priors
           \<and> distinct (map fst priors)
           \<and> fst ` set priors = set [0, 0, 1, 1]
           \<and> (\<forall>c\<in>set [0, 0, 1, 1].
                 map_of priors c =
                   Some (real (count_list [0, 0, 1, 1] c) / real (length [0, 0, 1, 1::int])))
           \<and> sum_list (map snd priors) = 1)"
  using estimate_class_priors_frequencies [of "[0, 0, 1, 1]"]
  by (simp add: estimate_class_priors_def)

text \<open>
  Claim C7 says that \<open>estimate_class_priors\<close> fails on the empty label vector because it
  divides by a zero count. The division sits in the loop over the keys of the counter
  dict, which is empty when there is no label: the call returns the empty mapping and
  raises nothing.
\<close>

theorem estimate_class_priors_empty_counterexample:
  "estimate_class_priors [] = Inr [] \<and> estimate_class_priors [] \<noteq> Inl ZeroDivisionError"
  by (simp add: estimate_class_priors_def)

text \<open>
  Claim C7, amended. \<open>estimate_class_priors\<close> raises on no label vector at all; on the
  empty one no division is executed and its result has no key.
\<close>

theorem estimate_class_priors_never_raises:
  "estimate_class_priors labels \<noteq> Inl e \<and> estimate_class_priors [] = Inr []"
proof (cases "labels = []")
  case True
  then show ?thesis by (simp add: estimate_class_priors_def)
next
  case False
  then show ?thesis by (simp add: estimate_class_priors_def divide_counts_pos)
qed

lemma estimate_class_priors_returns:
  "\<exists>priors. estimate_class_priors labels = Inr priors"
  by (cases "labels = []") (simp_all add: estimate_class_priors_def divide_counts_pos)

section \<open>Conditional probabilities\<close>

lemma rows_of_class_Nil [simp]: "rows_of_class features [] c = []"
  by (simp add: rows_of_class_def)

lemma rows_of_class_Cons [simp]:
  "rows_of_class (r # rs) (l # ls) c =
     (if l = c then r # rows_of_class rs ls c else rows_of_class rs ls c)"
  by (simp add: rows_of_class_def)

lemma rows_of_class_drop:
  "k < length features \<Longrightarrow>
     rows_of_class (drop k features) (l # ls) c =
       (if l = c then features ! k # rows_of_class (drop (Suc k) features) ls c
        else rows_of_class (drop (Suc k) features) ls c)"
  by (simp add: Cons_nth_drop_Suc [symmetric])

lemma rows_of_class_empty_iff:
  "length labels \<le> length features \<Longrightarrow> rows_of_class features labels c = [] \<longleftrightarrow> c \<notin> set labels"
proof (induction labels arbitrary: features)
  case Nil
  then show ?case by simp
next
  case (Cons l ls)
  then obtain r rs where f: "features = r # rs" by (cases features) auto
  with Cons show ?case by auto
qed

lemma total_words_loop_run:
  "k + length ls \<le> length features \<Longrightarrow>
     \<exists>tw'. total_words_loop features tw (enumerate k ls) = Inr tw'
        \<and> (\<forall>c. map_of tw' c =
              (case map_of tw c of
                 Some t \<Rightarrow> Some (t + total_words (drop k features) ls c)
               | None \<Rightarrow> if c \<in> set ls then Some (total_words (drop k features) ls c) else None))"
proof (induction ls arbitrary: k tw)
  case Nil
  then show ?case by (simp add: total_words_def split: option.splits)
next
  case (Cons l ls)
  then have k: "k < length features" and rest: "Suc k + length ls \<le> length features" by auto
  have row: "get_row features k = Inr (features ! k)" using k by (simp add: get_row_def)
  have tot: "\<And>c. total_words (drop k features) (l # ls) c =
      (if l = c then sum_list (features ! k) + total_words (drop (Suc k) features) ls c
       else total_words (drop (Suc k) features) ls c)"
    by (simp add: total_words_def rows_of_class_drop [OF k])
  show ?case
  proof (cases "map_of tw l")
    case None
    from Cons.IH [OF rest, of "AList.update l (sum_list (features ! k)) tw"]
    obtain tw' where run: "total_words_loop features (AList.update l (sum_list (features ! k)) tw)
          (enumerate (Suc k) ls) = Inr tw'"
      and val: "\<And>c. map_of tw' c =
              (case map_of (AList.update l (sum_list (features ! k)) tw) c of
                 Some t \<Rightarrow> Some (t + total_words (drop (Suc k) features) ls c)
               | None \<Rightarrow> if c \<in> set ls then Some (total_words (drop (Suc k) features) ls c) else None)"
      by blast
    have "total_words_loop features tw (enumerate k (l # ls)) = Inr tw'"
      using None row run by simp
    moreover have "\<forall>c. map_of tw' c =
              (case map_of tw c of
                 Some t \<Rightarrow> Some (t + total_words (drop k features) (l # ls) c)
               | None \<Rightarrow> if c \<in> set (l # ls) then Some (total_words (drop k features) (l # ls) c) else None)"
      using None by (auto simp: val tot update_conv' split: option.splits)
    ultimately show ?thesis by blast
  next
    case (Some t)
    from Cons.IH [OF rest, of "AList.update l (t + sum_list (features ! k)) tw"]
    obtain tw' where run: "total_words_loop features (AList.update l (t + sum_list (features ! k)) tw)
          (enumerate (Suc k) ls) = Inr tw'"
      and val: "\<And>c. map_of tw' c =
              (case map_of (AList.update l (t + sum_list (features ! k)) tw) c of
                 Some t \<Rightarrow> Some (t + total_words (drop (Suc k) features) ls c)
               | None \<Rightarrow> if c \<in> set ls then Some (total_words (drop (Suc k) features) ls c) else None)"
      by blast
    have "total_words_loop features tw (enumerate k (l # ls)) = Inr tw'"
      using Some row run by simp
    moreover have "\<forall>c. map_of tw' c =
              (case map_of tw c of
                 Some t \<Rightarrow> Some (t + total_words (drop k features) (l # ls) c)
               | None \<Rightarrow> if c \<in> set (l # ls) then Some (total_words (drop k features) (l # ls) c) else None)"
      using Some by (auto simp: val tot update_conv' split: option.splits)
    ultimately show ?thesis by blast
  qed
qed

lemma outcome_Nil: "outcome delta d start [] = start"
  by (simp add: outcome_def accumulated_sum_def contributions_def split: option.splits)

lemma outcome_first:
  "outcome delta d None (r # rs) = outcome delta d (Some (map (\<lambda>x. (x + delta) / d) r)) rs"
  by (simp add: outcome_def accumulated_sum_def contributions_def)

lemma outcome_next:
  "outcome delta d (Some acc) (r # rs) =
     outcome delta d (Some (map2 (+) acc (map (\<lambda>x. x / d) r))) rs"
  by (simp add: outcome_def)

lemma class_word_counts_loop_run:
  assumes V: "vocab_size self = Some V" and W: "\<forall>r\<in>set features. length r = W"
  shows "k + length ls \<le> length features \<Longrightarrow>
     \<forall>c\<in>set ls. map_of tw c = Some (T c) \<Longrightarrow>
     \<forall>c acc. map_of cwc c = Some acc \<longrightarrow> length acc = W \<Longrightarrow>
     distinct (map fst cwc) \<Longrightarrow>
     \<exists>cwc'. class_word_counts_loop self features delta tw cwc (enumerate k ls) = Inr cwc'
        \<and> distinct (map fst cwc')
        \<and> (\<forall>c. map_of cwc' c =
              outcome delta (real V * delta + T c) (map_of cwc c)
                (rows_of_class (drop k features) ls c))"
proof (induction ls arbitrary: k cwc)
  case Nil
  then show ?case by (simp add: outcome_Nil)
next
  case (Cons l ls)
  let ?row = "features ! k"
  let ?d = "real V * delta + T l"
  from Cons.prems have k: "k < length features" and rest: "Suc k + length ls \<le> length features"
    by auto
  have row: "get_row features k = Inr ?row" using k by (simp add: get_row_def)
  have len: "length ?row = W" using W k by simp
  have den: "denominator self delta tw l = Inr ?d"
    using V Cons.prems(2) by (simp add: denominator_def)
  have tw: "\<forall>c\<in>set ls. map_of tw c = Some (T c)" using Cons.prems(2) by simp
  have rows: "\<And>c. rows_of_class (drop k features) (l # ls) c =
       (if l = c then ?row # rows_of_class (drop (Suc k) features) ls c
        else rows_of_class (drop (Suc k) features) ls c)"
    by (rule rows_of_class_drop [OF k])
  show ?case
  proof (cases "map_of cwc l")
    case None
    let ?cwc1 = "AList.update l (map (\<lambda>x. (x + delta) / ?d) ?row) cwc"
    have inv: "\<forall>c acc. map_of ?cwc1 c = Some acc \<longrightarrow> length acc = W"
      using Cons.prems(3) len by (auto simp: update_conv')
    have dist: "distinct (map fst ?cwc1)" using Cons.prems(4) by (rule distinct_update)
    from Cons.IH [OF rest tw inv dist]
    obtain cwc' where run: "class_word_counts_loop self features delta tw ?cwc1
          (enumerate (Suc k) ls) = Inr cwc'"
      and d': "distinct (map fst cwc')"
      and val: "\<And>c. map_of cwc' c =
              outcome delta (real V * delta + T c) (map_of ?cwc1 c)
                (rows_of_class (drop (Suc k) features) ls c)"
      by blast
    have "class_word_counts_loop self features delta tw cwc (enumerate k (l # ls)) = Inr cwc'"
      using None row den run by simp
    moreover have "\<forall>c. map_of cwc' c =
              outcome delta (real V * delta + T c) (map_of cwc c)
                (rows_of_class (drop k features) (l # ls) c)"
      using None by (simp add: val rows update_conv' outcome_first)
    ultimately show ?thesis using d' by blast
  next
    case (Some acc)
    let ?acc = "map2 (+) acc (map (\<lambda>x. x / ?d) ?row)"
    let ?cwc1 = "AList.update l ?acc cwc"
    have acc: "length acc = W" using Cons.prems(3) Some by blast
    have add: "iadd acc (map (\<lambda>x. x / ?d) ?row) = Inr ?acc"
      using acc len by (simp add: iadd_def)
    have inv: "\<forall>c acc. map_of ?cwc1 c = Some acc \<longrightarrow> length acc = W"
      using Cons.prems(3) len acc by (auto simp: update_conv')
    have dist: "distinct (map fst ?cwc1)" using Cons.prems(4) by (rule distinct_update)
    from Cons.IH [OF rest tw inv dist]
    obtain cwc' where run: "class_word_counts_loop self features delta tw ?cwc1
          (enumerate (Suc k) ls) = Inr cwc'"
      and d': "distinct (map fst cwc')"
      and val: "\<And>c. map_of cwc' c =
              outcome delta (real V * delta + T c) (map_of ?cwc1 c)
                (rows_of_class (drop (Suc k) features) ls c)"
      by blast
    have "class_word_counts_loop self features delta tw cwc (enumerate k (l # ls)) = Inr cwc'"
      using Some row den add run by simp
    moreover have "\<forall>c. map_of cwc' c =
              outcome delta (real V * delta + T c) (map_of cwc c)
                (rows_of_class (drop k features) (l # ls) c)"
      using Some by (simp add: val rows update_conv' outcome_next)
    ultimately show ?thesis using d' by blast
  qed
qed

lemma estimate_conditional_probabilities_run:
  assumes V: "vocab_size self = Some V"
    and W: "\<forall>r\<in>set features. length r = W"
    and n: "length labels \<le> length features"
  shows "\<exists>cond. estimate_conditional_probabilities self features labels delta = Inr cond
           \<and> distinct (map fst cond)
           \<and> fst ` set cond = set labels
           \<and> (\<forall>c. map_of cond c = spec_conditional V features labels delta c)"
proof -
  from total_words_loop_run [of 0 labels features "[]"] n
  obtain tw where tw_run: "total_words_loop features [] (enumerate 0 labels) = Inr tw"
    and tw_val: "\<forall>c\<in>set labels. map_of tw c = Some (total_words features labels c)"
    by auto
  from class_word_counts_loop_run [OF V W, of 0 labels tw "total_words features labels" "[]" delta] n tw_val
  obtain cond where run: "class_word_counts_loop self features delta tw [] (enumerate 0 labels) = Inr cond"
    and dist: "distinct (map fst cond)"
    and val: "\<forall>c. map_of cond c = spec_conditional V features labels delta c"
    by (auto simp: outcome_def spec_conditional_def)
  have "estimate_conditional_probabilities self features labels delta = Inr cond"
    using tw_run run by (simp add: estimate_conditional_probabilities_def)
  moreover have "fst ` set cond = set labels"
  proof -
    have "fst ` set cond = dom (map_of cond)" by (simp add: dom_map_of_conv_image_fst)
    also have "\<dots> = {c. spec_conditional V features labels delta c \<noteq> None}"
      using val by (auto simp: dom_def)
    also have "\<dots> = set labels"
      using rows_of_class_empty_iff [OF n]
      by (auto simp: spec_conditional_def accumulated_sum_def contributions_def split: list.splits)
    finally show ?thesis .
  qed
  ultimately show ?thesis using dist val by blast
qed

lemma fit_run:
  assumes W: "\<forall>r\<in>set features. length r = W"
    and n: "length labels \<le> length features"
  shows "\<exists>priors cond. estimate_class_priors labels = Inr priors
      \<and> estimate_conditional_probabilities
            (self\<lparr>class_priors := Some priors, vocab_size := Some (length labels)\<rparr>)
            features labels delta = Inr cond
      \<and> fit self features labels delta =
          (None, self\<lparr>class_priors := Some priors, vocab_size := Some (length labels),
                      conditional_probabilities := Some cond\<rparr>)"
proof -
  obtain priors where p: "estimate_class_priors labels = Inr priors"
    using estimate_class_priors_returns by blast
  let ?self2 = "self\<lparr>class_priors := Some priors, vocab_size := Some (length labels)\<rparr>"
  have "vocab_size ?self2 = Some (length labels)" by simp
  from estimate_conditional_probabilities_run [OF this W n]
  obtain cond where c: "estimate_conditional_probabilities ?self2 features labels delta = Inr cond"
    by blast
  show ?thesis using p c by (simp add: fit_def)
qed

text \<open>
  Claim C3. \<open>estimate_conditional_probabilities\<close> returns, for every class, the sum
  accumulated in the order of the training examples of that class, the first of which
  contributes \<open>(feature + delta) / (vocab_size * delta + total_words(c))\<close> and every later
  one \<open>feature / (vocab_size * delta + total_words(c))\<close>; \<open>vocab_size\<close> is the field of the
  classifier at the time of the call, and \<open>fit\<close> sets it to the number of labels.
  The feature matrix has rows of one width and at least as many rows as there are labels.
\<close>

theorem estimate_conditional_probabilities_accumulates:
  assumes V: "vocab_size self = Some V"
    and W: "\<forall>r\<in>set features. length r = W"
    and n: "length labels \<le> length features"
  shows "(\<exists>cond. estimate_conditional_probabilities self features labels delta = Inr cond
            \<and> distinct (map fst cond)
            \<and> fst ` set cond = set labels
            \<and> (\<forall>c. map_of cond c = spec_conditional V features labels delta c))
       \<and> (\<exists>cond. fst (fit self0 features labels delta) = None
            \<and> vocab_size (snd (fit self0 features labels delta)) = Some (length labels)
            \<and> conditional_probabilities (snd (fit self0 features labels delta)) = Some cond
            \<and> (\<forall>c. map_of cond c = spec_conditional (length labels) features labels delta c))"
proof
  show "\<exists>cond. estimate_conditional_probabilities self features labels delta = Inr cond
            \<and> distinct (map fst cond)
            \<and> fst ` set cond = set labels
            \<and> (\<forall>c. map_of cond c = spec_conditional V features labels delta c)"
    by (rule estimate_conditional_probabilities_run [OF V W n])
next
  from fit_run [OF W n, of self0 delta]
  obtain priors cond where
    c: "estimate_conditional_probabilities
            (self0\<lparr>class_priors := Some priors, vocab_size := Some (length labels)\<rparr>)
            features labels delta = Inr cond"
    and f: "fit self0 features labels delta =
          (None, self0\<lparr>class_priors := Some priors, vocab_size := Some (length labels),
                      conditional_probabilities := Some cond\<rparr>)"
    by blast
  have "vocab_size (self0\<lparr>class_priors := Some priors, vocab_size := Some (length labels)\<rparr>)
          = Some (length labels)" by simp
  from estimate_conditional_probabilities_run [OF this W n, of delta] c
  have "\<forall>c. map_of cond c = spec_conditional (length labels) features labels delta c"
    by simp
  then show "\<exists>cond. fst (fit self0 features labels delta) = None
            \<and> vocab_size (snd (fit self0 features labels delta)) = Some (length labels)
            \<and> conditional_probabilities (snd (fit self0 features labels delta)) = Some cond
            \<and> (\<forall>c. map_of cond c = spec_conditional (length labels) features labels delta c)"
    using f by simp
qed

theorem estimate_conditional_probabilities_accumulates_witness:
  "(\<exists>cond. estimate_conditional_probabilities (init\<lparr>vocab_size := Some 3\<rparr>)
              [[1, 0, 0], [0, 1, 0], [0, 0, 1], [1, 1, 0]] [0, 0, 1, 1] 1 = Inr cond
            \<and> distinct (map fst cond)
            \<and> fst ` set cond = set [0, 0, 1, 1]
            \<and> (\<forall>c. map_of cond c =
                  spec_conditional 3 [[1, 0, 0], [0, 1, 0], [0, 0, 1], [1, 1, 0]] [0, 0, 1, 1] 1 c))
   \<and> (\<exists>cond. fst (fit init [[1, 0, 0], [0, 1, 0], [0, 0, 1], [1, 1, 0]] [0, 0, 1, 1] 1) = None
            \<and> vocab_size (snd (fit init [[1, 0, 0], [0, 1, 0], [0, 0, 1], [1, 1, 0]] [0, 0, 1, 1] 1))
                = Some (length [0, 0, 1, 1::int])
            \<and> conditional_probabilities
                  (snd (fit init [[1, 0, 0], [0, 1, 0], [0, 0, 1], [1, 1, 0]] [0, 0, 1, 1] 1))
                = Some cond
            \<and> (\<forall>c. map_of cond c =
                  spec_conditional (length [0, 0, 1, 1::int])
                    [[1, 0, 0], [0, 1, 0], [0, 0, 1], [1, 1, 0]] [0, 0, 1, 1] 1 c))
   \<and> spec_conditional 3 [[1, 0, 0], [0, 1, 0], [0, 0, 1], [1, 1, 0]] [0, 0, 1, 1] 1 0
        = Some [2 / 5, 2 / 5, 1 / 5]
   \<and> spec_conditional 4 [[1, 0, 0], [0, 1, 0], [0, 0, 1], [1, 1, 0]] [0, 0, 1, 1] 1 0
        = Some [1 / 3, 1 / 3, 1 / 6]"
proof -
  have V: "vocab_size (init\<lparr>vocab_size := Some 3\<rparr>) = Some 3" by simp
  have W: "\<forall>r\<in>set [[1, 0, 0], [0, 1, 0], [0, 0, 1], [1, 1, 0::real]]. length r = 3" by simp
  have n: "length [0, 0, 1, 1::int] \<le> length [[1, 0, 0], [0, 1, 0], [0, 0, 1], [1, 1, 0::real]]"
    by simp
  have a: "spec_conditional 3 [[1, 0, 0], [0, 1, 0], [0, 0, 1], [1, 1, 0]] [0, 0, 1, 1] 1 0
        = Some [2 / 5, 2 / 5, 1 / 5]"
    by (simp add: spec_conditional_def accumulated_sum_def contributions_def total_words_def)
  have b: "spec_conditional 4 [[1, 0, 0], [0, 1, 0], [0, 0, 1], [1, 1, 0]] [0, 0, 1, 1] 1 0
        = Some [1 / 3, 1 / 3, 1 / 6]"
    by (simp add: spec_conditional_def accumulated_sum_def contributions_def total_words_def)
  show ?thesis
    using estimate_conditional_probabilities_accumulates [OF V W n, of 1 init] a b
    by blast
qed

lemma rows_of_class_subset: "set (rows_of_class features labels c) \<subseteq> set features"
  by (auto simp: rows_of_class_def dest: set_zip_leftD)

lemma total_words_nonneg:
  assumes "\<forall>r\<in>set features. \<forall>x\<in>set r. 0 \<le> x"
  shows "0 \<le> total_words features labels c"
  unfolding total_words_def
proof (rule sum_list_nonneg)
  fix t assume "t \<in> set (map sum_list (rows_of_class features labels c))"
  then obtain r where r: "r \<in> set features" and t: "t = sum_list r"
    using rows_of_class_subset [of features labels c] by auto
  show "0 \<le> t" unfolding t using assms r by (auto intro: sum_list_nonneg)
qed

lemma foldl_add_positive:
  "\<forall>x\<in>set acc. 0 < x \<Longrightarrow> \<forall>r\<in>set rs. \<forall>x\<in>set r. (0::real) \<le> x \<Longrightarrow>
     \<forall>x\<in>set (foldl (map2 (+)) acc rs). 0 < x"
proof (induction rs arbitrary: acc)
  case Nil
  then show ?case by simp
next
  case (Cons r rs)
  have a: "\<forall>x\<in>set (map2 (+) acc r). 0 < x"
  proof
    fix x assume "x \<in> set (map2 (+) acc r)"
    then obtain a b where "(a, b) \<in> set (zip acc r)" and x: "x = a + b" by auto
    then have "a \<in> set acc" and "b \<in> set r" by (auto dest: set_zip_leftD set_zip_rightD)
    then have "0 < a" and "0 \<le> b" using Cons.prems by auto
    then show "0 < x" unfolding x by simp
  qed
  have b: "\<forall>r\<in>set rs. \<forall>x\<in>set r. 0 \<le> x" using Cons.prems(2) by simp
  show ?case using Cons.IH [OF a b] by simp
qed

lemma spec_conditional_positive:
  assumes nonneg: "\<forall>r\<in>set features. \<forall>x\<in>set r. 0 \<le> x"
    and delta: "0 < delta" and V: "0 < V"
    and v: "spec_conditional V features labels delta c = Some v"
  shows "\<forall>x\<in>set v. 0 < x"
proof -
  let ?d = "real V * delta + total_words features labels c"
  have d: "0 < ?d" using total_words_nonneg [OF nonneg, of labels c] delta V
    by (simp add: add_pos_nonneg)
  from v obtain first others where rows: "rows_of_class features labels c = first # others"
    and v': "v = foldl (map2 (+)) (map (\<lambda>x. (x + delta) / ?d) first)
                  (map (map (\<lambda>x. x / ?d)) others)"
    by (auto simp: spec_conditional_def accumulated_sum_def contributions_def split: list.splits)
  have sub: "set (first # others) \<subseteq> set features"
    using rows_of_class_subset [of features labels c] rows by simp
  have "\<forall>x\<in>set (map (\<lambda>x. (x + delta) / ?d) first). 0 < x"
  proof
    fix y assume "y \<in> set (map (\<lambda>x. (x + delta) / ?d) first)"
    then obtain x where "x \<in> set first" and y: "y = (x + delta) / ?d" by auto
    then have "0 \<le> x" using nonneg sub by auto
    then show "0 < y" unfolding y using delta d by (simp add: add_nonneg_pos)
  qed
  moreover have "\<forall>r\<in>set (map (map (\<lambda>x. x / ?d)) others). \<forall>x\<in>set r. 0 \<le> x"
  proof (intro ballI)
    fix r y assume "r \<in> set (map (map (\<lambda>x. x / ?d)) others)" and "y \<in> set r"
    then obtain r' x where "r' \<in> set others" and "x \<in> set r'" and y: "y = x / ?d" by auto
    then have "0 \<le> x" using nonneg sub by auto
    then show "0 \<le> y" unfolding y using d by simp
  qed
  ultimately show ?thesis unfolding v' by (rule foldl_add_positive)
qed

lemma foldl_add_length:
  "length acc = W \<Longrightarrow> \<forall>r\<in>set rs. length r = W \<Longrightarrow> length (foldl (map2 (+)) acc rs) = W"
  by (induction rs arbitrary: acc) simp_all

lemma spec_conditional_length:
  assumes W: "\<forall>r\<in>set features. length r = W"
    and v: "spec_conditional V features labels delta c = Some v"
  shows "length v = W"
proof -
  let ?d = "real V * delta + total_words features labels c"
  from v obtain first others where rows: "rows_of_class features labels c = first # others"
    and v': "v = foldl (map2 (+)) (map (\<lambda>x. (x + delta) / ?d) first)
                  (map (map (\<lambda>x. x / ?d)) others)"
    by (auto simp: spec_conditional_def accumulated_sum_def contributions_def split: list.splits)
  have sub: "set (first # others) \<subseteq> set features"
    using rows_of_class_subset [of features labels c] rows by simp
  have "length (map (\<lambda>x. (x + delta) / ?d) first) = W" using W sub by simp
  moreover have "\<forall>r\<in>set (map (map (\<lambda>x. x / ?d)) others). length r = W" using W sub by auto
  ultimately show ?thesis unfolding v' by (rule foldl_add_length)
qed

text \<open>
  Claim C9. For a training input with at least one example, non-negative feature counts
  and \<open>delta > 0\<close>, \<open>fit\<close> succeeds, and every component of every vector that
  \<open>estimate_conditional_probabilities\<close> produces, with the vocabulary-size field as
  \<open>fit\<close> sets it, is strictly positive.
\<close>

theorem conditional_probabilities_positive:
  assumes labels: "labels \<noteq> []"
    and n: "length features = length labels"
    and W: "\<forall>r\<in>set features. length r = W"
    and nonneg: "\<forall>r\<in>set features. \<forall>x\<in>set r. 0 \<le> x"
    and delta: "0 < delta"
  shows "\<exists>priors cond. estimate_class_priors labels = Inr priors
          \<and> fit self features labels delta =
              (None, self\<lparr>class_priors := Some priors, vocab_size := Some (length labels),
                          conditional_probabilities := Some cond\<rparr>)
          \<and> estimate_conditional_probabilities
               (self\<lparr>class_priors := Some priors, vocab_size := Some (length labels)\<rparr>)
               features labels delta = Inr cond
          \<and> fst ` set cond = set labels
          \<and> (\<forall>(c, v)\<in>set cond. \<forall>x\<in>set v. 0 < x)"
proof -
  have n': "length labels \<le> length features" using n by simp
  from fit_run [OF W n', of self delta]
  obtain priors cond where p: "estimate_class_priors labels = Inr priors"
    and c: "estimate_conditional_probabilities
            (self\<lparr>class_priors := Some priors, vocab_size := Some (length labels)\<rparr>)
            features labels delta = Inr cond"
    and f: "fit self features labels delta =
          (None, self\<lparr>class_priors := Some priors, vocab_size := Some (length labels),
                      conditional_probabilities := Some cond\<rparr>)"
    by blast
  have "vocab_size (self\<lparr>class_priors := Some priors, vocab_size := Some (length labels)\<rparr>)
          = Some (length labels)" by simp
  from estimate_conditional_probabilities_run [OF this W n', of delta] c
  have dist: "distinct (map fst cond)" and keys: "fst ` set cond = set labels"
    and val: "\<forall>c. map_of cond c = spec_conditional (length labels) features labels delta c"
    by simp_all
  have V: "0 < length labels" using labels by simp
  have pos: "\<forall>(c, v)\<in>set cond. \<forall>x\<in>set v. 0 < x"
  proof (clarify)
    fix c v x assume cv: "(c, v) \<in> set cond" and x: "x \<in> set v"
    from cv dist have "map_of cond c = Some v" by simp
    then have "spec_conditional (length labels) features labels delta c = Some v"
      using val by simp
    from spec_conditional_positive [OF nonneg delta V this] x
    show "0 < x" by simp
  qed
  show ?thesis using p c f keys pos by blast
qed

theorem conditional_probabilities_positive_witness:
  "\<exists>priors cond. estimate_class_priors [0, 0, 1, 1] = Inr priors
          \<and> fit init [[1, 0, 0], [0, 1, 0], [0, 0, 1], [1, 1, 0]] [0, 0, 1, 1] 1 =
              (None, init\<lparr>class_priors := Some priors,
                          vocab_size := Some (length [0, 0, 1, 1 :: int]),
                          conditional_probabilities := Some cond\<rparr>)
          \<and> estimate_conditional_probabilities
               (init\<lparr>class_priors := Some priors, vocab_size := Some (length [0, 0, 1, 1 :: int])\<rparr>)
               [[1, 0, 0], [0, 1, 0], [0, 0, 1], [1, 1, 0]] [0, 0, 1, 1] 1 = Inr cond
          \<and> fst ` set cond = set [0, 0, 1, 1]
          \<and> (\<forall>(c, v)\<in>set cond. \<forall>x\<in>set v. 0 < x)"
proof -
  have a: "[0, 0, 1, 1 :: int] \<noteq> []" by simp
  have b: "length [[1, 0, 0], [0, 1, 0], [0, 0, 1], [1, 1, 0 :: real]] = length [0, 0, 1, 1 :: int]"
    by simp
  have c: "\<forall>r\<in>set [[1, 0, 0], [0, 1, 0], [0, 0, 1], [1, 1, 0 :: real]]. length r = 3" by simp
  have d: "\<forall>r\<in>set [[1, 0, 0], [0, 1, 0], [0, 0, 1], [1, 1, 0 :: real]]. \<forall>x\<in>set r. 0 \<le> x"
    by simp
  have e: "0 < (1::real)" by simp
  show ?thesis by (rule conditional_probabilities_positive [OF a b c d e])
qed

section \<open>Runs on concrete training sets\<close>

lemma fit_two_classes:
  "fit init [[1, 0], [0, 1]] [3, 7] 1 =
     (None, \<lparr>class_priors = Some [(3, 1 / 2), (7, 1 / 2)],
             conditional_probabilities = Some [(3, [2 / 3, 1 / 3]), (7, [1 / 3, 2 / 3])],
             vocab_size = Some 2\<rparr>)"
  by (simp add: fit_def init_def estimate_class_priors_def estimate_conditional_probabilities_def
      enumerate_eq_zip get_row_def denominator_def iadd_def)

lemma fit_four_examples:
  "fit init [[1, 0, 0], [0, 1, 0], [0, 0, 1], [1, 1, 0]] [0, 0, 1, 1] 1 =
     (None, \<lparr>class_priors = Some [(0, 1 / 2), (1, 1 / 2)],
             conditional_probabilities =
               Some [(0, [1 / 3, 1 / 3, 1 / 6]), (1, [2 / 7, 2 / 7, 2 / 7])],
             vocab_size = Some 4\<rparr>)"
  by (simp add: fit_def init_def estimate_class_priors_def estimate_conditional_probabilities_def
      enumerate_eq_zip get_row_def denominator_def iadd_def)

lemma fit_empty:
  "fit init [] [] 1 =
     (None, \<lparr>class_priors = Some [], conditional_probabilities = Some [], vocab_size = Some 0\<rparr>)"
  by (simp add: fit_def init_def estimate_class_priors_def estimate_conditional_probabilities_def)

text \<open>
  Claim C1, on the code. The training set of the scenario, through \<open>fit\<close>: the priors are
  one half each, but the vocabulary-size field is the number of labels, 4, the
  denominator of class 0 is \<open>4 * 1 + 2 = 6\<close>, and the vector stored for class 0 is
  \<open>[1/3, 1/3, 1/6]\<close>, not \<open>[0.4, 0.4, 0.2]\<close>.
\<close>

theorem fit_scenario_conditional:
  "fit init [[1, 0, 0], [0, 1, 0], [0, 0, 1], [1, 1, 0]] [0, 0, 1, 1] 1 =
     (None, \<lparr>class_priors = Some [(0, 1 / 2), (1, 1 / 2)],
             conditional_probabilities =
               Some [(0, [1 / 3, 1 / 3, 1 / 6]), (1, [2 / 7, 2 / 7, 2 / 7])],
             vocab_size = Some 4\<rparr>)
   \<and> [1 / 3, 1 / 3, 1 / 6] \<noteq> [0.4, 0.4, 0.2 :: real]
   \<and> denominator \<lparr>class_priors = None, conditional_probabilities = None, vocab_size = Some 4\<rparr>
        1 [(0, 2), (1, 2)] 0 = Inr 6"
  by (simp add: fit_four_examples denominator_def)

section \<open>Log-posteriors\<close>

lemma mul_same_width:
  "length v = length feature \<Longrightarrow> mul (map ln v) feature = Inr (map2 (*) (map ln v) feature)"
  by (simp add: mul_def)

lemma sum_list_weighted:
  assumes "length v = length feature"
  shows "sum_list (map2 (*) (map ln v) feature) = (\<Sum>j<length feature. ln (v ! j) * feature ! j)"
proof -
  have "sum_list (map2 (*) (map ln v) feature) =
      (\<Sum>j = 0..<length feature. map2 (*) (map ln v) feature ! j)"
    using assms by (simp add: sum_list_sum_nth)
  also have "\<dots> = (\<Sum>j = 0..<length feature. ln (v ! j) * feature ! j)"
    using assms by (intro sum.cong) simp_all
  finally show ?thesis by (simp add: atLeast0LessThan)
qed

lemma log_posteriors_loop_run:
  "k + length items \<le> length lp \<Longrightarrow>
   \<forall>(c, p)\<in>set items. \<exists>v. map_of cond c = Some v \<and> length v = length feature \<Longrightarrow>
   \<exists>lp'. log_posteriors_loop cond feature lp (enumerate k items) = Inr lp'
      \<and> length lp' = length lp
      \<and> (\<forall>i<length items. \<exists>v. map_of cond (fst (items ! i)) = Some v
            \<and> lp' ! (k + i) = spec_log_posterior (snd (items ! i)) v feature)
      \<and> (\<forall>j<k. lp' ! j = lp ! j)"
proof (induction items arbitrary: k lp)
  case Nil
  then show ?case by simp
next
  case (Cons item items)
  obtain c p where item: "item = (c, p)" by (cases item)
  from Cons.prems(2) item obtain v where v: "map_of cond c = Some v"
    and len: "length v = length feature" by auto
  let ?val = "ln p + sum_list (map2 (*) (map ln v) feature)"
  have val: "?val = spec_log_posterior p v feature"
    by (simp add: spec_log_posterior_def sum_list_weighted [OF len])
  have k: "k < length lp" using Cons.prems(1) by simp
  have rest: "Suc k + length items \<le> length (lp[k := ?val])" using Cons.prems(1) by simp
  have all: "\<forall>(c, p)\<in>set items. \<exists>v. map_of cond c = Some v \<and> length v = length feature"
    using Cons.prems(2) by simp
  from Cons.IH [OF rest all]
  obtain lp' where run: "log_posteriors_loop cond feature (lp[k := ?val]) (enumerate (Suc k) items) = Inr lp'"
    and len': "length lp' = length lp"
    and later: "\<forall>i<length items. \<exists>v. map_of cond (fst (items ! i)) = Some v
            \<and> lp' ! (Suc k + i) = spec_log_posterior (snd (items ! i)) v feature"
    and earlier: "\<forall>j<Suc k. lp' ! j = (lp[k := ?val]) ! j"
    by auto
  have "log_posteriors_loop cond feature lp (enumerate k (item # items)) = Inr lp'"
    using item v run by (simp add: mul_same_width [OF len])
  moreover have "\<forall>i<length (item # items). \<exists>v. map_of cond (fst ((item # items) ! i)) = Some v
            \<and> lp' ! (k + i) = spec_log_posterior (snd ((item # items) ! i)) v feature"
  proof (intro allI impI)
    fix i assume i: "i < length (item # items)"
    show "\<exists>v. map_of cond (fst ((item # items) ! i)) = Some v
            \<and> lp' ! (k + i) = spec_log_posterior (snd ((item # items) ! i)) v feature"
    proof (cases i)
      case 0
      have "lp' ! k = ?val" using earlier k by simp
      then show ?thesis using 0 item v val by simp
    next
      case (Suc i')
      then show ?thesis using later i by simp
    qed
  qed
  moreover have "\<forall>j<k. lp' ! j = lp ! j" using earlier by simp
  ultimately show ?case using len' by blast
qed

lemma keys_sort_key:
  assumes "distinct (map fst (priors :: real dict))"
  shows "map fst (sort_key fst priors) = ascending_labels priors"
proof -
  let ?ks = "map fst (sort_key fst priors)"
  have "card (set ?ks) = length ?ks" using distinct_card [OF assms] by simp
  then have "distinct ?ks" by (rule card_distinct)
  moreover have "sorted ?ks" by simp
  moreover have "set ?ks = set (sorted_list_of_set (fst ` set priors))" by simp
  ultimately show ?thesis unfolding ascending_labels_def
    by (intro sorted_distinct_set_unique) simp_all
qed

lemma estimate_class_posteriors_run:
  assumes priors: "class_priors self = Some priors"
    and cond: "conditional_probabilities self = Some cond"
    and dist: "distinct (map fst priors)"
    and widths: "\<forall>c\<in>fst ` set priors. \<exists>v. map_of cond c = Some v \<and> length v = length feature"
  shows "\<exists>lp. estimate_class_posteriors self feature = Inr lp
           \<and> length lp = length priors
           \<and> (\<forall>i<length lp. \<exists>p v. map_of priors (ascending_labels priors ! i) = Some p
                 \<and> map_of cond (ascending_labels priors ! i) = Some v
                 \<and> lp ! i = spec_log_posterior p v feature)"
proof -
  let ?items = "sort_key fst priors"
  have w: "\<forall>(c, p)\<in>set ?items. \<exists>v. map_of cond c = Some v \<and> length v = length feature"
    using widths by force
  from log_posteriors_loop_run [of 0 ?items "replicate (length priors) 0" cond feature] w
  obtain lp where run: "log_posteriors_loop cond feature (replicate (length priors) 0)
        (enumerate 0 ?items) = Inr lp"
    and len: "length lp = length priors"
    and val: "\<forall>i<length priors. \<exists>v. map_of cond (fst (?items ! i)) = Some v
            \<and> lp ! i = spec_log_posterior (snd (?items ! i)) v feature"
    by auto
  have "estimate_class_posteriors self feature = Inr lp"
    using priors cond run by (simp add: estimate_class_posteriors_def)
  moreover have "\<forall>i<length lp. \<exists>p v. map_of priors (ascending_labels priors ! i) = Some p
                 \<and> map_of cond (ascending_labels priors ! i) = Some v
                 \<and> lp ! i = spec_log_posterior p v feature"
  proof (intro allI impI)
    fix i assume i: "i < length lp"
    then have i': "i < length ?items" using len by simp
    have key: "ascending_labels priors ! i = fst (?items ! i)"
      using keys_sort_key [OF dist, symmetric] i' by simp
    have "?items ! i \<in> set priors" using nth_mem [OF i'] by simp
    then have "map_of priors (fst (?items ! i)) = Some (snd (?items ! i))"
      using dist by simp
    then show "\<exists>p v. map_of priors (ascending_labels priors ! i) = Some p
                 \<and> map_of cond (ascending_labels priors ! i) = Some v
                 \<and> lp ! i = spec_log_posterior p v feature"
      using val i len key by auto
  qed
  ultimately show ?thesis using len by blast
qed

text \<open>
  Claim C4. \<open>estimate_class_posteriors\<close> goes through the class labels in ascending
  order, and entry \<open>i\<close> of its result is, for the label of rank \<open>i\<close>,
  \<open>log(prior) + \<Sum>j log(conditional[j]) * feature[j]\<close>. The priors are a dict (distinct
  keys) and every class has a conditional vector as wide as the feature vector.
\<close>

theorem estimate_class_posteriors_ascending:
  assumes priors: "class_priors self = Some priors"
    and cond: "conditional_probabilities self = Some cond"
    and dist: "distinct (map fst priors)"
    and widths: "\<forall>c\<in>fst ` set priors. \<exists>v. map_of cond c = Some v \<and> length v = length feature"
  shows "map fst (sort_key fst priors) = ascending_labels priors
       \<and> sorted (ascending_labels priors) \<and> distinct (ascending_labels priors)
       \<and> set (ascending_labels priors) = fst ` set priors
       \<and> (\<exists>lp. estimate_class_posteriors self feature = Inr lp
           \<and> length lp = length (ascending_labels priors)
           \<and> (\<forall>i<length lp. \<exists>p v. map_of priors (ascending_labels priors ! i) = Some p
                 \<and> map_of cond (ascending_labels priors ! i) = Some v
                 \<and> lp ! i = spec_log_posterior p v feature))"
proof -
  have k: "map fst (sort_key fst priors) = ascending_labels priors"
    by (rule keys_sort_key [OF dist])
  have "length (ascending_labels priors) = length priors"
    using arg_cong [OF k, of length] by simp
  then show ?thesis
    using k estimate_class_posteriors_run [OF priors cond dist widths]
    by (simp add: ascending_labels_def)
qed

theorem estimate_class_posteriors_ascending_witness:
  "map fst (sort_key fst [(7, 1 / 2), (3, 1 / 2 :: real)]) = ascending_labels [(7, 1 / 2), (3, 1 / 2)]
   \<and> ascending_labels [(7, 1 / 2), (3, 1 / 2)] = [3, 7]
   \<and> estimate_class_posteriors
        \<lparr>class_priors = Some [(7, 1 / 2), (3, 1 / 2)],
         conditional_probabilities = Some [(7, [1 / 3, 2 / 3]), (3, [2 / 3, 1 / 3])],
         vocab_size = Some 2\<rparr> [0, 1] = Inr [ln (1 / 2) + ln (1 / 3), ln (1 / 2) + ln (2 / 3)]
   \<and> (\<exists>lp. estimate_class_posteriors
              \<lparr>class_priors = Some [(7, 1 / 2), (3, 1 / 2)],
               conditional_probabilities = Some [(7, [1 / 3, 2 / 3]), (3, [2 / 3, 1 / 3])],
               vocab_size = Some 2\<rparr> [0, 1] = Inr lp
           \<and> length lp = length (ascending_labels [(7, 1 / 2), (3, 1 / 2)])
           \<and> (\<forall>i<length lp. \<exists>p v.
                 map_of [(7, 1 / 2), (3, 1 / 2)] (ascending_labels [(7, 1 / 2), (3, 1 / 2)] ! i) = Some p
                 \<and> map_of [(7, [1 / 3, 2 / 3]), (3, [2 / 3, 1 / 3])]
                      (ascending_labels [(7, 1 / 2), (3, 1 / 2)] ! i) = Some v
                 \<and> lp ! i = spec_log_posterior p v [0, 1]))"
proof -
  let ?s = "\<lparr>class_priors = Some [(7, 1 / 2), (3, 1 / 2 :: real)],
         conditional_probabilities = Some [(7, [1 / 3, 2 / 3]), (3, [2 / 3, 1 / 3 :: real])],
         vocab_size = Some (2::nat)\<rparr>"
  have a: "class_priors ?s = Some [(7, 1 / 2), (3, 1 / 2)]" by simp
  have b: "conditional_probabilities ?s = Some [(7, [1 / 3, 2 / 3]), (3, [2 / 3, 1 / 3])]" by simp
  have c: "distinct (map fst [(7::int, 1 / 2 :: real), (3, 1 / 2)])" by simp
  have d: "\<forall>c\<in>fst ` set [(7::int, 1 / 2 :: real), (3, 1 / 2)].
      \<exists>v. map_of [(7, [1 / 3, 2 / 3]), (3, [2 / 3, 1 / 3 :: real])] c = Some v
        \<and> length v = length [0, 1 :: real]" by simp
  have e: "estimate_class_posteriors ?s [0, 1] = Inr [ln (1 / 2) + ln (1 / 3), ln (1 / 2) + ln (2 / 3)]"
    by (simp add: estimate_class_posteriors_def enumerate_eq_zip mul_def)
  have f: "map fst (sort_key fst [(7::int, 1 / 2 :: real), (3, 1 / 2)]) = [3, 7]" by simp
  show ?thesis
    using estimate_class_posteriors_ascending [OF a b c d] e f by simp
qed

section \<open>Inference before training\<close>

text \<open>
  Claim C5 says that each of the three inference operations raises when a mapping is
  unset or empty. After \<open>fit\<close> on an empty training set both mappings are empty dicts,
  and \<open>estimate_class_posteriors\<close>, which tests \<open>is None\<close> only, returns an empty tensor.
\<close>

theorem posteriors_of_empty_training_counterexample:
  "fit init [] [] 1 =
     (None, \<lparr>class_priors = Some [], conditional_probabilities = Some [], vocab_size = Some 0\<rparr>)
   \<and> falsy (class_priors
       \<lparr>class_priors = Some [], conditional_probabilities = Some [], vocab_size = Some 0\<rparr>)
   \<and> estimate_class_posteriors
       \<lparr>class_priors = Some [], conditional_probabilities = Some [], vocab_size = Some 0\<rparr> [1]
      = Inr []"
  by (simp add: fit_empty falsy_def estimate_class_posteriors_def)

text \<open>
  Claim C5, amended. \<open>predict\<close> and \<open>predict_proba\<close> raise their not-trained exception
  whenever a mapping is unset or empty; \<open>estimate_class_posteriors\<close> raises its
  not-trained error whenever a mapping is unset; so every call on a new classifier
  raises. An error of \<open>estimate_class_posteriors\<close> inside \<open>predict\<close> or \<open>predict_proba\<close>
  reaches the caller unchanged.
\<close>

theorem not_trained_errors:
  "(falsy (class_priors self) \<or> falsy (conditional_probabilities self) \<longrightarrow>
      predict self feature = Inl NotTrainedException
      \<and> predict_proba self feature = Inl NotTrainedException)
   \<and> (class_priors self = None \<or> conditional_probabilities self = None \<longrightarrow>
      estimate_class_posteriors self feature = Inl ValueError)
   \<and> (\<not> falsy (class_priors self) \<and> \<not> falsy (conditional_probabilities self)
        \<and> estimate_class_posteriors self feature = Inl e \<longrightarrow>
      predict self feature = Inl e \<and> predict_proba self feature = Inl e)
   \<and> estimate_class_posteriors init feature = Inl ValueError
   \<and> predict init feature = Inl NotTrainedException
   \<and> predict_proba init feature = Inl NotTrainedException"
  by (auto simp: predict_def predict_proba_def estimate_class_posteriors_def init_def falsy_def
      split: option.splits)

theorem not_trained_errors_witness:
  "falsy (class_priors init)
   \<and> class_priors init = None
   \<and> predict init [1] = Inl NotTrainedException
   \<and> predict_proba init [1] = Inl NotTrainedException
   \<and> estimate_class_posteriors init [1] = Inl ValueError
   \<and> \<not> falsy (class_priors
         \<lparr>class_priors = Some [(3, 1 / 2), (7, 1 / 2)],
          conditional_probabilities = Some [(3, [2 / 3, 1 / 3]), (7, [1 / 3, 2 / 3])],
          vocab_size = Some 2\<rparr>)
   \<and> \<not> falsy (conditional_probabilities
         \<lparr>class_priors = Some [(3, 1 / 2), (7, 1 / 2)],
          conditional_probabilities = Some [(3, [2 / 3, 1 / 3]), (7, [1 / 3, 2 / 3])],
          vocab_size = Some 2\<rparr>)
   \<and> estimate_class_posteriors
         \<lparr>class_priors = Some [(3, 1 / 2), (7, 1 / 2)],
          conditional_probabilities = Some [(3, [2 / 3, 1 / 3]), (7, [1 / 3, 2 / 3])],
          vocab_size = Some 2\<rparr> [1, 2, 3] = Inl RuntimeError
   \<and> predict
         \<lparr>class_priors = Some [(3, 1 / 2), (7, 1 / 2)],
          conditional_probabilities = Some [(3, [2 / 3, 1 / 3]), (7, [1 / 3, 2 / 3])],
          vocab_size = Some 2\<rparr> [1, 2, 3] = Inl RuntimeError
   \<and> predict_proba
         \<lparr>class_priors = Some [(3, 1 / 2), (7, 1 / 2)],
          conditional_probabilities = Some [(3, [2 / 3, 1 / 3]), (7, [1 / 3, 2 / 3])],
          vocab_size = Some 2\<rparr> [1, 2, 3] = Inl RuntimeError"
proof -
  let ?s = "\<lparr>class_priors = Some [(3, 1 / 2), (7, 1 / 2 :: real)],
          conditional_probabilities = Some [(3, [2 / 3, 1 / 3]), (7, [1 / 3, 2 / 3 :: real])],
          vocab_size = Some (2::nat)\<rparr>"
  have a: "falsy (class_priors init)" and b: "class_priors init = None"
    by (simp_all add: init_def falsy_def)
  have c: "\<not> falsy (class_priors ?s)" "\<not> falsy (conditional_probabilities ?s)"
    by (simp_all add: falsy_def)
  have d: "estimate_class_posteriors ?s [1, 2, 3] = Inl RuntimeError"
    by (simp add: estimate_class_posteriors_def enumerate_eq_zip mul_def)
  show ?thesis
    using not_trained_errors [of init "[1]"] not_trained_errors [of ?s "[1, 2, 3]" RuntimeError]
      a b c d
    by simp
qed

section \<open>Prediction\<close>

lemma fit_trained:
  assumes labels: "labels \<noteq> []"
    and n: "length features = length labels"
    and W: "\<forall>r\<in>set features. length r = W"
    and nonneg: "\<forall>r\<in>set features. \<forall>x\<in>set r. 0 \<le> x"
    and delta: "0 < delta"
  shows "fst (fit self features labels delta) = None
       \<and> trained (snd (fit self features labels delta)) W"
proof -
  have n': "length labels \<le> length features" using n by simp
  from fit_run [OF W n', of self delta]
  obtain priors cond where p: "estimate_class_priors labels = Inr priors"
    and c: "estimate_conditional_probabilities
            (self\<lparr>class_priors := Some priors, vocab_size := Some (length labels)\<rparr>)
            features labels delta = Inr cond"
    and f: "fit self features labels delta =
          (None, self\<lparr>class_priors := Some priors, vocab_size := Some (length labels),
                      conditional_probabilities := Some cond\<rparr>)"
    by blast
  from estimate_class_priors_run [OF labels] p
  have pd: "distinct (map fst priors)" and pk: "fst ` set priors = set labels"
    and pv: "\<forall>c\<in>set labels. map_of priors c = Some (real (count_list labels c) / real (length labels))"
    by auto
  have "vocab_size (self\<lparr>class_priors := Some priors, vocab_size := Some (length labels)\<rparr>)
          = Some (length labels)" by simp
  from estimate_conditional_probabilities_run [OF this W n', of delta] c
  have cd: "distinct (map fst cond)" and ck: "fst ` set cond = set labels"
    and cv: "\<forall>c. map_of cond c = spec_conditional (length labels) features labels delta c"
    by simp_all
  have V: "0 < length labels" using labels by simp
  have pne: "priors \<noteq> []" using pk labels by auto
  have cne: "cond \<noteq> []" using ck labels by auto
  have each: "list_all (\<lambda>(c, p). 0 < p \<and>
                   (case map_of cond c of
                      None \<Rightarrow> False
                    | Some v \<Rightarrow> length v = W \<and> list_all (\<lambda>x. 0 < x) v)) priors"
    unfolding list_all_iff
  proof (clarify)
    fix c p assume cp: "(c, p) \<in> set priors"
    then have cl: "c \<in> set labels" using pk by force
    have "map_of priors c = Some p" using cp pd by simp
    then have "p = real (count_list labels c) / real (length labels)" using pv cl by simp
    moreover have "0 < count_list labels c" using cl count_list_0_iff [of labels c] by simp
    ultimately have p0: "0 < p" using V by simp
    from cl ck obtain v where "(c, v) \<in> set cond" by force
    then have m: "map_of cond c = Some v" using cd by simp
    then have s: "spec_conditional (length labels) features labels delta c = Some v"
      using cv by simp
    have "length v = W" by (rule spec_conditional_length [OF W s])
    moreover have "\<forall>x\<in>set v. 0 < x" by (rule spec_conditional_positive [OF nonneg delta V s])
    ultimately show "0 < p \<and> (case map_of cond c of
                      None \<Rightarrow> False
                    | Some v \<Rightarrow> length v = W \<and> Ball (set v) (\<lambda>x. 0 < x))"
      using p0 m by simp
  qed
  show ?thesis using f pne cne pd each by (simp add: trained_def)
qed

lemma trained_run:
  assumes "trained self (length feature)"
  shows "\<exists>priors cond lp. class_priors self = Some priors
      \<and> conditional_probabilities self = Some cond
      \<and> \<not> falsy (class_priors self) \<and> \<not> falsy (conditional_probabilities self)
      \<and> estimate_class_posteriors self feature = Inr lp
      \<and> lp \<noteq> [] \<and> length lp = length priors"
proof -
  from assms obtain priors cond where p: "class_priors self = Some priors"
    and c: "conditional_probabilities self = Some cond"
    and ne: "priors \<noteq> []" "cond \<noteq> []" and dist: "distinct (map fst priors)"
    and all: "list_all (\<lambda>(c, p). 0 < p \<and>
                   (case map_of cond c of
                      None \<Rightarrow> False
                    | Some v \<Rightarrow> length v = length feature \<and> list_all (\<lambda>x. 0 < x) v)) priors"
    by (auto simp: trained_def split: option.splits)
  have widths: "\<forall>c\<in>fst ` set priors. \<exists>v. map_of cond c = Some v \<and> length v = length feature"
    using all by (auto simp: list_all_iff split: option.splits)
  from estimate_class_posteriors_run [OF p c dist widths]
  obtain lp where "estimate_class_posteriors self feature = Inr lp" "length lp = length priors"
    by blast
  then show ?thesis using p c ne by (auto simp: falsy_def)
qed

lemma sum_list_exp_pos: "xs \<noteq> [] \<Longrightarrow> 0 < sum_list (map exp (xs::real list))"
proof (cases xs)
  case Nil
  then show "xs \<noteq> [] \<Longrightarrow> ?thesis" by simp
next
  case (Cons x xs')
  have "0 \<le> sum_list (map exp xs')" by (rule sum_list_nonneg) auto
  then show ?thesis using Cons by (simp add: add_pos_nonneg)
qed

lemma sum_list_divide: "sum_list (map (\<lambda>x. f x / (c::real)) xs) = sum_list (map f xs) / c"
  by (induction xs) (auto simp: add_divide_distrib)

lemma softmax_nonneg: "\<forall>p\<in>set (softmax xs). 0 \<le> p"
proof (cases "xs = []")
  case True
  then show ?thesis by (simp add: softmax_def)
next
  case False
  then show ?thesis using sum_list_exp_pos [OF False] by (auto simp: softmax_def)
qed

lemma softmax_sum: "xs \<noteq> [] \<Longrightarrow> sum_list (softmax xs) = 1"
  using sum_list_exp_pos [of xs] by (simp add: softmax_def sum_list_divide)

lemma argmax_softmax:
  assumes "xs \<noteq> []"
  shows "argmax (softmax xs) = argmax xs"
proof -
  let ?S = "sum_list (map exp xs)"
  let ?g = "\<lambda>x::real. exp x / ?S"
  have S: "0 < ?S" by (rule sum_list_exp_pos [OF assms])
  have inj: "\<And>x y. ?g x = ?g y \<longleftrightarrow> x = y" using S by simp
  have "mono ?g" using S by (auto simp: mono_def divide_right_mono)
  then have "?g (Max (set xs)) = Max (?g ` set xs)"
    using assms by (intro mono_Max_commute) simp_all
  then have M: "Max (set (map ?g xs)) = ?g (Max (set xs))" by simp
  have "takeWhile (\<lambda>y. y \<noteq> Max (set (map ?g xs))) (map ?g xs) =
      map ?g (takeWhile ((\<lambda>y. y \<noteq> ?g (Max (set xs))) \<circ> ?g) xs)"
    unfolding M by (rule takeWhile_map)
  also have "(\<lambda>y. y \<noteq> ?g (Max (set xs))) \<circ> ?g = (\<lambda>x. x \<noteq> Max (set xs))"
    using inj by (auto simp: fun_eq_iff)
  finally have "length (takeWhile (\<lambda>y. y \<noteq> Max (set (map ?g xs))) (map ?g xs)) =
      length (takeWhile (\<lambda>x. x \<noteq> Max (set xs)) xs)" by simp
  then show ?thesis using assms by (simp add: argmax_def softmax_def)
qed

lemma argmax_first_max:
  assumes "xs \<noteq> []"
  shows "\<exists>k. argmax xs = Inr k \<and> k < length xs \<and> (\<forall>j<length xs. xs ! j \<le> xs ! k)
            \<and> (\<forall>j<k. xs ! j < xs ! k)"
proof -
  let ?M = "Max (set xs)"
  let ?k = "length (takeWhile (\<lambda>x. x \<noteq> ?M) xs)"
  have "?M \<in> set xs" using assms by simp
  then have "dropWhile (\<lambda>x. x \<noteq> ?M) xs \<noteq> []" by (auto simp: dropWhile_eq_Nil_conv)
  moreover have "length xs = ?k + length (dropWhile (\<lambda>x. x \<noteq> ?M) xs)"
    by (metis length_append takeWhile_dropWhile_id)
  ultimately have k: "?k < length xs" by simp
  have xk: "xs ! ?k = ?M" using nth_length_takeWhile [OF k] by simp
  have le: "\<forall>j<length xs. xs ! j \<le> ?M" by simp
  have "\<forall>j<?k. xs ! j \<noteq> ?M"
  proof (intro allI impI)
    fix j assume j: "j < ?k"
    then have "takeWhile (\<lambda>x. x \<noteq> ?M) xs ! j = xs ! j" by (rule takeWhile_nth)
    moreover have "takeWhile (\<lambda>x. x \<noteq> ?M) xs ! j \<in> set (takeWhile (\<lambda>x. x \<noteq> ?M) xs)"
      using j by simp
    ultimately show "xs ! j \<noteq> ?M" by (auto dest: set_takeWhileD)
  qed
  then have "\<forall>j<?k. xs ! j < ?M" using le k by (metis less_trans order_le_less)
  then show ?thesis using assms k xk le by (simp add: argmax_def)
qed

lemma posteriors_two_classes:
  "estimate_class_posteriors
     \<lparr>class_priors = Some [(3, 1 / 2), (7, 1 / 2)],
      conditional_probabilities = Some [(3, [2 / 3, 1 / 3]), (7, [1 / 3, 2 / 3])],
      vocab_size = Some 2\<rparr> [0, 1] = Inr [ln (1 / 2) + ln (1 / 3), ln (1 / 2) + ln (2 / 3)]"
  by (simp add: estimate_class_posteriors_def enumerate_eq_zip mul_def)

lemma argmax_two: "argmax [ln (1 / 2) + ln (1 / 3), ln (1 / 2) + ln (2 / 3 :: real)] = Inr 1"
proof -
  have "ln (1 / 3 :: real) < ln (2 / 3)" by (subst ln_less_cancel_iff) simp_all
  then show ?thesis by (simp add: argmax_def max_def)
qed

lemma trained_two_classes:
  "trained \<lparr>class_priors = Some [(3, 1 / 2), (7, 1 / 2)],
            conditional_probabilities = Some [(3, [2 / 3, 1 / 3]), (7, [1 / 3, 2 / 3])],
            vocab_size = Some 2\<rparr> (length [0, 1 :: real])"
  by (simp add: trained_def)

text \<open>
  Claim C8. For a trained classifier \<open>predict_proba\<close> is the softmax of the vector of
  \<open>estimate_class_posteriors\<close>: entry \<open>i\<close> belongs to the label of rank \<open>i\<close> as there,
  no entry is negative, and the entries add up to 1.
\<close>

theorem predict_proba_softmax:
  assumes "trained self (length feature)"
  shows "\<exists>priors lp. class_priors self = Some priors
           \<and> estimate_class_posteriors self feature = Inr lp
           \<and> predict_proba self feature = Inr (softmax lp)
           \<and> length (softmax lp) = length (ascending_labels priors)
           \<and> (\<forall>i<length lp. softmax lp ! i = exp (lp ! i) / sum_list (map exp lp))
           \<and> (\<forall>p\<in>set (softmax lp). 0 \<le> p)
           \<and> sum_list (softmax lp) = 1"
proof -
  from trained_run [OF assms]
  obtain priors cond lp where p: "class_priors self = Some priors"
    and t: "\<not> falsy (class_priors self)" "\<not> falsy (conditional_probabilities self)"
    and run: "estimate_class_posteriors self feature = Inr lp"
    and ne: "lp \<noteq> []" and len: "length lp = length priors"
    by blast
  have dist: "distinct (map fst priors)"
    using assms p by (auto simp: trained_def split: option.splits)
  have "length (ascending_labels priors) = length priors"
    using arg_cong [OF keys_sort_key [OF dist], of length] by simp
  then have l: "length (softmax lp) = length (ascending_labels priors)"
    using len by (simp add: softmax_def)
  have proba: "predict_proba self feature = Inr (softmax lp)"
    using t run by (simp add: predict_proba_def)
  have nth: "\<forall>i<length lp. softmax lp ! i = exp (lp ! i) / sum_list (map exp lp)"
    by (simp add: softmax_def)
  show ?thesis
    using p run proba l nth softmax_nonneg [of lp] softmax_sum [OF ne] by blast
qed

theorem predict_proba_softmax_witness:
  "\<exists>priors lp.
      class_priors
        \<lparr>class_priors = Some [(3, 1 / 2), (7, 1 / 2)],
         conditional_probabilities = Some [(3, [2 / 3, 1 / 3]), (7, [1 / 3, 2 / 3])],
         vocab_size = Some 2\<rparr> = Some priors
    \<and> estimate_class_posteriors
        \<lparr>class_priors = Some [(3, 1 / 2), (7, 1 / 2)],
         conditional_probabilities = Some [(3, [2 / 3, 1 / 3]), (7, [1 / 3, 2 / 3])],
         vocab_size = Some 2\<rparr> [0, 1] = Inr lp
    \<and> predict_proba
        \<lparr>class_priors = Some [(3, 1 / 2), (7, 1 / 2)],
         conditional_probabilities = Some [(3, [2 / 3, 1 / 3]), (7, [1 / 3, 2 / 3])],
         vocab_size = Some 2\<rparr> [0, 1] = Inr (softmax lp)
    \<and> length (softmax lp) = length (ascending_labels priors)
    \<and> (\<forall>i<length lp. softmax lp ! i = exp (lp ! i) / sum_list (map exp lp))
    \<and> (\<forall>p\<in>set (softmax lp). 0 \<le> p)
    \<and> sum_list (softmax lp) = 1"
  by (rule predict_proba_softmax [OF trained_two_classes])

text \<open>
  Claim C2, on the code. \<open>predict\<close> returns the position of the maximum, not the label
  at that position: trained on the labels 3 and 7, it answers 1 where the label of
  rank 1 is 7.
\<close>

theorem predict_returns_rank_index:
  "fit init [[1, 0], [0, 1]] [3, 7] 1 =
     (None, \<lparr>class_priors = Some [(3, 1 / 2), (7, 1 / 2)],
             conditional_probabilities = Some [(3, [2 / 3, 1 / 3]), (7, [1 / 3, 2 / 3])],
             vocab_size = Some 2\<rparr>)
   \<and> predict
        \<lparr>class_priors = Some [(3, 1 / 2), (7, 1 / 2)],
         conditional_probabilities = Some [(3, [2 / 3, 1 / 3]), (7, [1 / 3, 2 / 3])],
         vocab_size = Some 2\<rparr> [0, 1] = Inr 1
   \<and> map fst (sort_key fst [(3 :: int, 1 / 2 :: real), (7, 1 / 2)]) ! 1 = 7"
  by (simp add: fit_two_classes predict_def falsy_def posteriors_two_classes argmax_two)

text \<open>
  Claim C10. For a trained classifier the position of the first maximum of the vector of
  \<open>predict_proba\<close> is the value \<open>predict\<close> returns.
\<close>

theorem predict_proba_argmax_is_predict:
  assumes "trained self (length feature)"
  shows "\<exists>probs k. predict_proba self feature = Inr probs
           \<and> predict self feature = Inr k
           \<and> argmax probs = Inr k"
proof -
  from trained_run [OF assms]
  obtain lp where t: "\<not> falsy (class_priors self)" "\<not> falsy (conditional_probabilities self)"
    and run: "estimate_class_posteriors self feature = Inr lp"
    and ne: "lp \<noteq> []"
    by blast
  have proba: "predict_proba self feature = Inr (softmax lp)"
    using t run by (simp add: predict_proba_def)
  have pred: "predict self feature = argmax lp"
    using t run by (simp add: predict_def)
  obtain k where k: "argmax lp = Inr k" using argmax_first_max [OF ne] by blast
  show ?thesis using proba pred k argmax_softmax [OF ne] by simp
qed

theorem predict_proba_argmax_is_predict_witness:
  "predict
        \<lparr>class_priors = Some [(3, 1 / 2), (7, 1 / 2)],
         conditional_probabilities = Some [(3, [2 / 3, 1 / 3]), (7, [1 / 3, 2 / 3])],
         vocab_size = Some 2\<rparr> [0, 1] = Inr 1
   \<and> (\<exists>probs k. predict_proba
        \<lparr>class_priors = Some [(3, 1 / 2), (7, 1 / 2)],
         conditional_probabilities = Some [(3, [2 / 3, 1 / 3]), (7, [1 / 3, 2 / 3])],
         vocab_size = Some 2\<rparr> [0, 1] = Inr probs
    \<and> predict
        \<lparr>class_priors = Some [(3, 1 / 2), (7, 1 / 2)],
         conditional_probabilities = Some [(3, [2 / 3, 1 / 3]), (7, [1 / 3, 2 / 3])],
         vocab_size = Some 2\<rparr> [0, 1] = Inr k
    \<and> argmax probs = Inr k)"
proof -
  have "predict
        \<lparr>class_priors = Some [(3, 1 / 2), (7, 1 / 2)],
         conditional_probabilities = Some [(3, [2 / 3, 1 / 3]), (7, [1 / 3, 2 / 3])],
         vocab_size = Some 2\<rparr> [0, 1] = Inr 1"
    by (simp add: predict_def falsy_def posteriors_two_classes argmax_two)
  then show ?thesis
    using predict_proba_argmax_is_predict [OF trained_two_classes] by blast
qed

end
